theory Spec2Isabelle
  imports Main "HOL-Library.Word"
begin

section \<open>The digital-will canister (src/dfinity_js_backend/src/index.ts)\<close>

text \<open>
  The canister keeps five stable maps (users, wills, executors, assets, beneficiaries) and
  exposes six update methods and six query methods. Each method is embedded below as a
  function from the payload and the state of the five maps to the method's \<open>Result\<close>
  and the state after the call. The two values a method takes from outside, the identifier
  returned by \<open>uuidv4()\<close> and the timestamp returned by \<open>ic.time()\<close>, are
  parameters of the update methods.

  Candid \<open>text\<close> is \<open>string\<close>, \<open>nat64\<close> is \<open>64 word\<close>, \<open>bool\<close> is \<open>bool\<close>,
  \<open>Vec\<close> is \<open>list\<close>, and \<open>Null\<close> is the one-element type \<open>unit\<close>.
\<close>

subsection \<open>Records (index.ts, lines 20-101)\<close>

text \<open>
  The source's records share field names (\<open>id\<close>, \<open>name\<close>, \<open>createdAt\<close>, ...), and
  \<open>id\<close> is a constant of HOL, so every field carries a prefix for its record:
  \<open>u_\<close> User, \<open>a_\<close> Asset, \<open>b_\<close> Beneficiary, \<open>w_\<close> Will, \<open>e_\<close> Executor, and
  \<open>up_\<close>, \<open>wp_\<close>, \<open>ap_\<close>, \<open>bp_\<close>, \<open>ep_\<close>, \<open>xp_\<close> for the payloads of users, wills,
  assets, beneficiaries, executors and executor assignment.
\<close>

record User =
  u_id :: string
  u_name :: string
  u_email :: string
  u_createdAt :: "64 word"

record Asset =
  a_id :: string
  a_willId :: string
  a_name :: string
  a_value :: "64 word"
  a_createdAt :: "64 word"

record Beneficiary =
  b_id :: string
  b_willId :: string
  b_name :: string
  b_share :: "64 word"
  b_createdAt :: "64 word"

record Will =
  w_id :: string
  w_userId :: string
  w_executorId :: string
  w_assets :: "Asset list"
  w_beneficiaries :: "Beneficiary list"
  w_createdAt :: "64 word"
  w_isExecuted :: bool

record Executor =
  e_id :: string
  e_name :: string
  e_contact :: string
  e_createdAt :: "64 word"

record UserPayload =
  up_name :: string
  up_email :: string

record WillPayload =
  wp_userId :: string
  wp_executorId :: string

record AssetPayload =
  ap_willId :: string
  ap_name :: string
  ap_value :: "64 word"

record BeneficiaryPayload =
  bp_willId :: string
  bp_name :: string
  bp_share :: "64 word"

record ExecutorPayload =
  ep_name :: string
  ep_contact :: string

record AssignExecutorPayload =
  xp_willId :: string
  xp_executorId :: string

subsection \<open>Results\<close>

text \<open>\<open>Result(T, text)\<close>: \<open>Ok\<close> carries the value, \<open>Err\<close> the message.\<close>

datatype 'a Result = Ok 'a | Err string

subsection \<open>Stable maps\<close>

text \<open>
  Modelled from the spec: \<open>StableBTreeMap\<close> is a class of the azle library, whose code is
  not in the repository. Section 4.2 of the specification gives its contract: \<open>insert\<close>
  adds a record under a key or overwrites the record already under it and always succeeds;
  \<open>get\<close> returns the record under a key or the absence marker; \<open>values\<close> returns all
  current records in the iteration order, which is taken to be the order of first
  insertion. A map is the list of its entries in that order; a key occurs at most once in
  a list built by \<open>insert_sbt\<close> from the empty list.
\<close>

type_synonym 'v StableBTreeMap = "(string \<times> 'v) list"

fun insert_sbt :: "string \<Rightarrow> 'v \<Rightarrow> 'v StableBTreeMap \<Rightarrow> 'v StableBTreeMap" where
  "insert_sbt k v [] = [(k, v)]"
| "insert_sbt k v ((k', v') # m) =
     (if k = k' then (k, v) # m else (k', v') # insert_sbt k v m)"

definition get_sbt :: "'v StableBTreeMap \<Rightarrow> string \<Rightarrow> 'v option" where
  "get_sbt m k = map_of m k"

definition values_sbt :: "'v StableBTreeMap \<Rightarrow> 'v list" where
  "values_sbt m = map snd m"

definition keys_sbt :: "'v StableBTreeMap \<Rightarrow> string list" where
  "keys_sbt m = map fst m"

subsection \<open>The state: the five maps (index.ts, lines 103-108)\<close>

record state =
  usersStorage :: "User StableBTreeMap"
  willsStorage :: "Will StableBTreeMap"
  executorsStorage :: "Executor StableBTreeMap"
  assetsStorage :: "Asset StableBTreeMap"
  beneficiariesStorage :: "Beneficiary StableBTreeMap"

definition init_state :: state where
  "init_state = \<lparr>usersStorage = [], willsStorage = [], executorsStorage = [],
     assetsStorage = [], beneficiariesStorage = []\<rparr>"

subsection \<open>Update methods (index.ts, lines 113-252)\<close>

text \<open>
  \<open>!payload.name\<close> on a JavaScript string is true exactly for the empty string.
  \<open>uuid\<close> is the value of \<open>uuidv4()\<close> and \<open>now\<close> the value of \<open>ic.time()\<close>.
\<close>

definition createUser ::
  "UserPayload \<Rightarrow> string \<Rightarrow> 64 word \<Rightarrow> state \<Rightarrow> User Result \<times> state" where
  "createUser payload uuid now s =
     (if up_name payload = [] \<or> up_email payload = []
      then (Err ''Name and email are required.'', s)
      else
        let user = \<lparr>u_id = uuid, u_name = up_name payload, u_email = up_email payload,
                     u_createdAt = now\<rparr>
        in (Ok user, s\<lparr>usersStorage := insert_sbt uuid user (usersStorage s)\<rparr>))"

definition createExecutor ::
  "ExecutorPayload \<Rightarrow> string \<Rightarrow> 64 word \<Rightarrow> state \<Rightarrow> Executor Result \<times> state" where
  "createExecutor payload uuid now s =
     (if ep_name payload = [] \<or> ep_contact payload = []
      then (Err ''Name and contact are required.'', s)
      else
        let executor = \<lparr>e_id = uuid, e_name = ep_name payload,
                         e_contact = ep_contact payload, e_createdAt = now\<rparr>
        in (Ok executor,
            s\<lparr>executorsStorage := insert_sbt uuid executor (executorsStorage s)\<rparr>))"

definition createWill ::
  "WillPayload \<Rightarrow> string \<Rightarrow> 64 word \<Rightarrow> state \<Rightarrow> Will Result \<times> state" where
  "createWill payload uuid now s =
     (case get_sbt (usersStorage s) (wp_userId payload) of
        None \<Rightarrow> (Err ''User not found.'', s)
      | Some _ \<Rightarrow>
          (case get_sbt (executorsStorage s) (wp_executorId payload) of
             None \<Rightarrow> (Err ''Executor not found.'', s)
           | Some _ \<Rightarrow>
               let will = \<lparr>w_id = uuid, w_userId = wp_userId payload,
                            w_executorId = wp_executorId payload, w_assets = [],
                            w_beneficiaries = [], w_createdAt = now,
                            w_isExecuted = False\<rparr>
               in (Ok will, s\<lparr>willsStorage := insert_sbt uuid will (willsStorage s)\<rparr>)))"

definition addAsset ::
  "AssetPayload \<Rightarrow> string \<Rightarrow> 64 word \<Rightarrow> state \<Rightarrow> unit Result \<times> state" where
  "addAsset payload uuid now s =
     (case get_sbt (willsStorage s) (ap_willId payload) of
        None \<Rightarrow> (Err ''Will not found.'', s)
      | Some will \<Rightarrow>
          let asset = \<lparr>a_id = uuid, a_willId = ap_willId payload, a_name = ap_name payload,
                        a_value = ap_value payload, a_createdAt = now\<rparr>;
              will' = will\<lparr>w_assets := w_assets will @ [asset]\<rparr>
          in (Ok (),
              s\<lparr>willsStorage := insert_sbt (ap_willId payload) will' (willsStorage s),
                assetsStorage := insert_sbt uuid asset (assetsStorage s)\<rparr>))"

definition addBeneficiary ::
  "BeneficiaryPayload \<Rightarrow> string \<Rightarrow> 64 word \<Rightarrow> state \<Rightarrow> unit Result \<times> state" where
  "addBeneficiary payload uuid now s =
     (case get_sbt (willsStorage s) (bp_willId payload) of
        None \<Rightarrow> (Err ''Will not found.'', s)
      | Some will \<Rightarrow>
          let beneficiary = \<lparr>b_id = uuid, b_willId = bp_willId payload,
                              b_name = bp_name payload, b_share = bp_share payload,
                              b_createdAt = now\<rparr>;
              will' = will\<lparr>w_beneficiaries := w_beneficiaries will @ [beneficiary]\<rparr>
          in (Ok (),
              s\<lparr>willsStorage := insert_sbt (bp_willId payload) will' (willsStorage s),
                beneficiariesStorage :=
                  insert_sbt uuid beneficiary (beneficiariesStorage s)\<rparr>))"

definition assignExecutor :: "AssignExecutorPayload \<Rightarrow> state \<Rightarrow> unit Result \<times> state" where
  "assignExecutor payload s =
     (case get_sbt (willsStorage s) (xp_willId payload) of
        None \<Rightarrow> (Err ''Will not found.'', s)
      | Some will \<Rightarrow>
          (case get_sbt (executorsStorage s) (xp_executorId payload) of
             None \<Rightarrow> (Err ''Executor not found.'', s)
           | Some _ \<Rightarrow>
               let will' = will\<lparr>w_executorId := xp_executorId payload\<rparr>
               in (Ok (),
                   s\<lparr>willsStorage := insert_sbt (xp_willId payload) will' (willsStorage s)\<rparr>)))"

subsection \<open>Query methods (index.ts, lines 254-306)\<close>

text \<open>
  A query returns its result and the state it leaves, like an update, so that what it
  does to the state is a property of its body.
\<close>

definition getUser :: "string \<Rightarrow> state \<Rightarrow> User Result \<times> state" where
  "getUser userId s =
     (case get_sbt (usersStorage s) userId of
        None \<Rightarrow> (Err ''User not found.'', s)
      | Some user \<Rightarrow> (Ok user, s))"

definition getAllUsers :: "state \<Rightarrow> User list Result \<times> state" where
  "getAllUsers s =
     (let users = values_sbt (usersStorage s)
      in if length users = 0 then (Err ''No users found.'', s) else (Ok users, s))"

definition getExecutor :: "string \<Rightarrow> state \<Rightarrow> Executor Result \<times> state" where
  "getExecutor executorId s =
     (case get_sbt (executorsStorage s) executorId of
        None \<Rightarrow> (Err ''Executor not found.'', s)
      | Some executor \<Rightarrow> (Ok executor, s))"

definition getAllExecutors :: "state \<Rightarrow> Executor list Result \<times> state" where
  "getAllExecutors s =
     (let executors = values_sbt (executorsStorage s)
      in if length executors = 0 then (Err ''No executors found.'', s)
         else (Ok executors, s))"

definition getWill :: "string \<Rightarrow> state \<Rightarrow> Will Result \<times> state" where
  "getWill willId s =
     (case get_sbt (willsStorage s) willId of
        None \<Rightarrow> (Err ''Will not found.'', s)
      | Some will \<Rightarrow> (Ok will, s))"

definition getAllWills :: "state \<Rightarrow> Will list Result \<times> state" where
  "getAllWills s =
     (let wills = values_sbt (willsStorage s)
      in if length wills = 0 then (Err ''No wills found.'', s) else (Ok wills, s))"

subsection \<open>The canister: one call of any method (index.ts, lines 111-307)\<close>

datatype canister_method =
    CreateUser UserPayload
  | CreateExecutor ExecutorPayload
  | CreateWill WillPayload
  | AddAsset AssetPayload
  | AddBeneficiary BeneficiaryPayload
  | AssignExecutor AssignExecutorPayload
  | GetUser string
  | GetAllUsers
  | GetExecutor string
  | GetAllExecutors
  | GetWill string
  | GetAllWills

text \<open>What a call returns on success: the union of the \<open>Ok\<close> types of the methods.\<close>

datatype reply =
    RNull
  | RUser User
  | RExecutor Executor
  | RWill Will
  | RUsers "User list"
  | RExecutors "Executor list"
  | RWills "Will list"

fun map_Result :: "('a \<Rightarrow> 'b) \<Rightarrow> 'a Result \<times> state \<Rightarrow> 'b Result \<times> state" where
  "map_Result f (Ok x, s) = (Ok (f x), s)"
| "map_Result f (Err m, s) = (Err m, s)"

fun canister :: "canister_method \<Rightarrow> string \<Rightarrow> 64 word \<Rightarrow> state \<Rightarrow> reply Result \<times> state" where
  "canister (CreateUser p) uuid now s = map_Result RUser (createUser p uuid now s)"
| "canister (CreateExecutor p) uuid now s = map_Result RExecutor (createExecutor p uuid now s)"
| "canister (CreateWill p) uuid now s = map_Result RWill (createWill p uuid now s)"
| "canister (AddAsset p) uuid now s = map_Result (\<lambda>_. RNull) (addAsset p uuid now s)"
| "canister (AddBeneficiary p) uuid now s = map_Result (\<lambda>_. RNull) (addBeneficiary p uuid now s)"
| "canister (AssignExecutor p) uuid now s = map_Result (\<lambda>_. RNull) (assignExecutor p s)"
| "canister (GetUser i) uuid now s = map_Result RUser (getUser i s)"
| "canister GetAllUsers uuid now s = map_Result RUsers (getAllUsers s)"
| "canister (GetExecutor i) uuid now s = map_Result RExecutor (getExecutor i s)"
| "canister GetAllExecutors uuid now s = map_Result RExecutors (getAllExecutors s)"
| "canister (GetWill i) uuid now s = map_Result RWill (getWill i s)"
| "canister GetAllWills uuid now s = map_Result RWills (getAllWills s)"

text \<open>
  A sequence of calls, each with the identifier and the time the call would draw, run
  from a state; \<open>run\<close> returns the state after the last call.
\<close>

type_synonym call = "canister_method \<times> string \<times> 64 word"

fun run :: "call list \<Rightarrow> state \<Rightarrow> state" where
  "run [] s = s"
| "run ((m, uuid, now) # cs) s = run cs (snd (canister m uuid now s))"

text \<open>
  Modelled from the spec: \<open>uuidv4\<close> is a function of the uuid package, whose code is not in
  the repository. Section 4.1 of the specification gives its contract: an identifier it
  returns is unique across all five collections for the lifetime of the store.
  \<open>fresh_id uuid s\<close> says that \<open>uuid\<close> is the key of no record of \<open>s\<close>, and \<open>fresh_run\<close>
  that every call of a sequence draws such an identifier.
\<close>

definition fresh_id :: "string \<Rightarrow> state \<Rightarrow> bool" where
  "fresh_id uuid s =
     (uuid \<notin> set (keys_sbt (usersStorage s)) \<and>
      uuid \<notin> set (keys_sbt (willsStorage s)) \<and>
      uuid \<notin> set (keys_sbt (executorsStorage s)) \<and>
      uuid \<notin> set (keys_sbt (assetsStorage s)) \<and>
      uuid \<notin> set (keys_sbt (beneficiariesStorage s)))"

fun fresh_run :: "call list \<Rightarrow> state \<Rightarrow> bool" where
  "fresh_run [] s = True"
| "fresh_run ((m, uuid, now) # cs) s =
     (fresh_id uuid s \<and> fresh_run cs (snd (canister m uuid now s)))"

subsection \<open>Error kinds\<close>

text \<open>
  Modelled from the spec: the code returns messages only; section 7 of the specification
  names three kinds of error. \<open>error_kind\<close> gives the kind of each message of the code:
  a required field missing or empty, a referenced identifier not in storage, a listing
  that found no record.
\<close>

datatype error_kind = ValidationError | NotFoundError | EmptyCollectionError

definition error_kind :: "string \<Rightarrow> error_kind option" where
  "error_kind m =
     (if m = ''Name and email are required.'' \<or> m = ''Name and contact are required.''
      then Some ValidationError
      else if m = ''User not found.'' \<or> m = ''Executor not found.'' \<or> m = ''Will not found.''
      then Some NotFoundError
      else if m = ''No users found.'' \<or> m = ''No executors found.'' \<or> m = ''No wills found.''
      then Some EmptyCollectionError
      else None)"

fun is_error :: "error_kind \<Rightarrow> 'a Result \<Rightarrow> bool" where
  "is_error k (Err m) = (error_kind m = Some k)"
| "is_error k (Ok _) = False"

fun is_Err :: "'a Result \<Rightarrow> bool" where
  "is_Err (Err _) = True"
| "is_Err (Ok _) = False"

subsection \<open>Notions of the specification\<close>

text \<open>
  The records created by the successful \<open>createUser\<close> calls of a sequence of calls, in the
  order of the calls.
\<close>

definition created_user :: "canister_method \<Rightarrow> string \<Rightarrow> 64 word \<Rightarrow> state \<Rightarrow> User list" where
  "created_user m uuid now s =
     (case m of
        CreateUser p \<Rightarrow> (case fst (createUser p uuid now s) of Ok u \<Rightarrow> [u] | Err _ \<Rightarrow> [])
      | _ \<Rightarrow> [])"

fun created_users :: "call list \<Rightarrow> state \<Rightarrow> User list" where
  "created_users [] s = []"
| "created_users ((m, uuid, now) # cs) s =
     created_user m uuid now s @ created_users cs (snd (canister m uuid now s))"

text \<open>
  Section 3 of the specification: the embedded lists of a will are the records of the
  standalone collections whose \<open>willId\<close> is the will's id, in insertion order.
\<close>

definition dual_write_consistent :: "state \<Rightarrow> bool" where
  "dual_write_consistent s =
     (\<forall>w \<in> set (values_sbt (willsStorage s)).
        w_assets w = filter (\<lambda>a. a_willId a = w_id w) (values_sbt (assetsStorage s)) \<and>
        w_beneficiaries w =
          filter (\<lambda>b. b_willId b = w_id w) (values_sbt (beneficiariesStorage s)))"

text \<open>
  What the methods keep besides: no key occurs twice in a map, a will is stored under its
  own id, and the \<open>willId\<close> of a stored asset or beneficiary is the key of a stored will.
\<close>

definition keys_distinct :: "state \<Rightarrow> bool" where
  "keys_distinct s =
     (distinct (keys_sbt (usersStorage s)) \<and> distinct (keys_sbt (willsStorage s)) \<and>
      distinct (keys_sbt (executorsStorage s)) \<and> distinct (keys_sbt (assetsStorage s)) \<and>
      distinct (keys_sbt (beneficiariesStorage s)))"

definition references_ok :: "state \<Rightarrow> bool" where
  "references_ok s =
     ((\<forall>e \<in> set (willsStorage s). w_id (snd e) = fst e) \<and>
      (\<forall>a \<in> set (values_sbt (assetsStorage s)).
         a_willId a \<in> set (keys_sbt (willsStorage s))) \<and>
      (\<forall>b \<in> set (values_sbt (beneficiariesStorage s)).
         b_willId b \<in> set (keys_sbt (willsStorage s))))"

text \<open>
  Section 4.3 of the specification speaks of whitespace-only text: a text that is not
  empty and has only spaces, tabs, line feeds and carriage returns.
\<close>

definition whitespace_only :: "string \<Rightarrow> bool" where
  "whitespace_only t =
     (t \<noteq> [] \<and>
      (\<forall>c \<in> set t. c = CHR '' '' \<or> c = CHR 0x09 \<or> c = CHR 0x0A \<or> c = CHR 0x0D))"

text \<open>
  What a successful call of each method returns, and where the record it returns is to be
  found in the state after the call.
\<close>

fun returns_record :: "canister_method \<Rightarrow> string \<Rightarrow> state \<Rightarrow> reply \<Rightarrow> state \<Rightarrow> bool" where
  "returns_record (CreateUser p) uuid s r s' =
     (case r of RUser u \<Rightarrow> get_sbt (usersStorage s') uuid = Some u \<and> u_id u = uuid
      | _ \<Rightarrow> False)"
| "returns_record (CreateExecutor p) uuid s r s' =
     (case r of RExecutor e \<Rightarrow> get_sbt (executorsStorage s') uuid = Some e \<and> e_id e = uuid
      | _ \<Rightarrow> False)"
| "returns_record (CreateWill p) uuid s r s' =
     (case r of RWill w \<Rightarrow> get_sbt (willsStorage s') uuid = Some w \<and> w_id w = uuid
      | _ \<Rightarrow> False)"
| "returns_record (AddAsset p) uuid s r s' = (r = RNull)"
| "returns_record (AddBeneficiary p) uuid s r s' = (r = RNull)"
| "returns_record (AssignExecutor p) uuid s r s' = (r = RNull)"
| "returns_record (GetUser i) uuid s r s' =
     (case r of RUser u \<Rightarrow> get_sbt (usersStorage s) i = Some u | _ \<Rightarrow> False)"
| "returns_record GetAllUsers uuid s r s' = (r = RUsers (values_sbt (usersStorage s)))"
| "returns_record (GetExecutor i) uuid s r s' =
     (case r of RExecutor e \<Rightarrow> get_sbt (executorsStorage s) i = Some e | _ \<Rightarrow> False)"
| "returns_record GetAllExecutors uuid s r s' =
     (r = RExecutors (values_sbt (executorsStorage s)))"
| "returns_record (GetWill i) uuid s r s' =
     (case r of RWill w \<Rightarrow> get_sbt (willsStorage s) i = Some w | _ \<Rightarrow> False)"
| "returns_record GetAllWills uuid s r s' = (r = RWills (values_sbt (willsStorage s)))"

subsection \<open>A small store\<close>

text \<open>
  The store after Alice, the executors Bob and Dave, and Alice's will with Bob as executor
  have been created, and the calls that build it from the empty store.
\<close>

definition alice :: User where
  "alice = \<lparr>u_id = ''u1'', u_name = ''Alice'', u_email = ''alice@x.com'', u_createdAt = 1\<rparr>"

definition bob :: Executor where
  "bob = \<lparr>e_id = ''e1'', e_name = ''Bob'', e_contact = ''bob@x.com'', e_createdAt = 2\<rparr>"

definition dave :: Executor where
  "dave = \<lparr>e_id = ''e2'', e_name = ''Dave'', e_contact = ''dave@x.com'', e_createdAt = 3\<rparr>"

definition will1 :: Will where
  "will1 = \<lparr>w_id = ''w1'', w_userId = ''u1'', w_executorId = ''e1'', w_assets = [],
     w_beneficiaries = [], w_createdAt = 4, w_isExecuted = False\<rparr>"

definition example_state :: state where
  "example_state = \<lparr>usersStorage = [(''u1'', alice)], willsStorage = [(''w1'', will1)],
     executorsStorage = [(''e1'', bob), (''e2'', dave)], assetsStorage = [],
     beneficiariesStorage = []\<rparr>"

definition example_calls :: "call list" where
  "example_calls =
     [(CreateUser \<lparr>up_name = ''Alice'', up_email = ''alice@x.com''\<rparr>, ''u1'', 1),
      (CreateExecutor \<lparr>ep_name = ''Bob'', ep_contact = ''bob@x.com''\<rparr>, ''e1'', 2),
      (CreateExecutor \<lparr>ep_name = ''Dave'', ep_contact = ''dave@x.com''\<rparr>, ''e2'', 3),
      (CreateWill \<lparr>wp_userId = ''u1'', wp_executorId = ''e1''\<rparr>, ''w1'', 4)]"

section \<open>Properties\<close>

subsection \<open>Stable maps\<close>

lemma get_insert_sbt:
  "get_sbt (insert_sbt k v m) k' = (if k' = k then Some v else get_sbt m k')"
  by (induction m) (auto simp: get_sbt_def)

lemma keys_insert_sbt_list:
  "keys_sbt (insert_sbt k v m) =
     (if k \<in> set (keys_sbt m) then keys_sbt m else keys_sbt m @ [k])"
  by (induction m) (force simp: keys_sbt_def)+

lemma keys_insert_sbt: "set (keys_sbt (insert_sbt k v m)) = insert k (set (keys_sbt m))"
  by (auto simp: keys_insert_sbt_list)

lemma insert_sbt_fresh: "k \<notin> set (keys_sbt m) \<Longrightarrow> insert_sbt k v m = m @ [(k, v)]"
  by (induction m) (auto simp: keys_sbt_def)

lemma distinct_insert_sbt: "distinct (keys_sbt m) \<Longrightarrow> distinct (keys_sbt (insert_sbt k v m))"
  by (simp add: keys_insert_sbt_list)

lemma get_sbt_Some_mem: "get_sbt m k = Some v \<Longrightarrow> (k, v) \<in> set m"
  by (simp add: get_sbt_def map_of_SomeD)

lemma values_insert_sbt_fresh:
  "k \<notin> set (keys_sbt m) \<Longrightarrow> values_sbt (insert_sbt k v m) = values_sbt m @ [v]"
  by (simp add: insert_sbt_fresh values_sbt_def)

lemma set_insert_sbt:
  "distinct (keys_sbt m) \<Longrightarrow>
   set (insert_sbt k v m) = insert (k, v) {e \<in> set m. fst e \<noteq> k}"
  by (induction m) (force simp: keys_sbt_def)+

lemma set_insert_sbt_subset: "set (insert_sbt k v m) \<subseteq> insert (k, v) (set m)"
  by (induction m) (auto split: if_splits)

lemma set_values_insert_sbt:
  "set (values_sbt (insert_sbt k v m)) \<subseteq> insert v (set (values_sbt m))"
  using set_insert_sbt_subset [of k v m] by (fastforce simp: values_sbt_def)

lemma ran_get_sbt: "distinct (keys_sbt m) \<Longrightarrow> ran (get_sbt m) = set (values_sbt m)"
proof -
  assume "distinct (keys_sbt m)"
  then have "ran (map_of m) = snd ` set m"
    by (simp add: keys_sbt_def ran_distinct)
  then show ?thesis
    by (simp add: get_sbt_def [abs_def] values_sbt_def)
qed

lemma card_dom_get_sbt:
  "distinct (keys_sbt m) \<Longrightarrow> card (dom (get_sbt m)) = length (values_sbt m)"
proof -
  assume d: "distinct (keys_sbt m)"
  have "dom (map_of m) = set (keys_sbt m)"
    by (simp add: keys_sbt_def dom_map_of_conv_image_fst)
  then have "dom (get_sbt m) = set (keys_sbt m)"
    by (simp add: get_sbt_def [abs_def])
  moreover from d have "card (set (keys_sbt m)) = length (keys_sbt m)"
    by (rule distinct_card)
  ultimately show ?thesis
    by (simp add: keys_sbt_def values_sbt_def)
qed

lemma map_Result_snd: "snd (map_Result f r) = snd r"
  by (cases "(f, r)" rule: map_Result.cases) simp_all

lemma map_Result_is_Err: "is_Err (fst (map_Result f r)) = is_Err (fst r)"
  by (cases "(f, r)" rule: map_Result.cases) simp_all

lemma example_run: "run example_calls init_state = example_state"
  by (simp add: example_calls_def init_state_def example_state_def createUser_def
      createExecutor_def createWill_def get_sbt_def alice_def bob_def dave_def will1_def Let_def)

lemma example_fresh: "fresh_run example_calls init_state"
  by (simp add: example_calls_def init_state_def fresh_id_def keys_sbt_def createUser_def
      createExecutor_def createWill_def get_sbt_def Let_def)

subsection \<open>addAsset\<close>

text \<open>
  C2. When the will \<open>willId\<close> of the payload is in the wills collection, \<open>addAsset\<close>
  succeeds; after it, \<open>getWill\<close> of that id returns the will with the new asset appended
  to its \<open>assets\<close>, the new asset has the \<open>name\<close> and the \<open>value\<close> of the payload, and
  the assets collection holds, under the new asset's id, the very same record.
\<close>

theorem addAsset_postcondition:
  assumes "get_sbt (willsStorage s) (ap_willId p) = Some w"
    and "asset = \<lparr>a_id = uuid, a_willId = ap_willId p, a_name = ap_name p,
                    a_value = ap_value p, a_createdAt = now\<rparr>"
    and "s' = snd (addAsset p uuid now s)"
  shows "fst (addAsset p uuid now s) = Ok () \<and>
         fst (getWill (ap_willId p) s') = Ok (w\<lparr>w_assets := w_assets w @ [asset]\<rparr>) \<and>
         asset \<in> set (w_assets (w\<lparr>w_assets := w_assets w @ [asset]\<rparr>)) \<and>
         a_name asset = ap_name p \<and> a_value asset = ap_value p \<and>
         get_sbt (assetsStorage s') (a_id asset) = Some asset"
  using assms by (simp add: addAsset_def getWill_def get_insert_sbt Let_def)

theorem addAsset_postcondition_witness:
  "get_sbt (willsStorage example_state) ''w1'' = Some will1 \<and>
   fst (addAsset \<lparr>ap_willId = ''w1'', ap_name = ''Car'', ap_value = 10000\<rparr> ''a1'' 7
          example_state) = Ok () \<and>
   fst (getWill ''w1''
          (snd (addAsset \<lparr>ap_willId = ''w1'', ap_name = ''Car'', ap_value = 10000\<rparr> ''a1'' 7
                  example_state))) =
     Ok (will1\<lparr>w_assets := [\<lparr>a_id = ''a1'', a_willId = ''w1'', a_name = ''Car'',
                                a_value = 10000, a_createdAt = 7\<rparr>]\<rparr>) \<and>
   get_sbt (assetsStorage
              (snd (addAsset \<lparr>ap_willId = ''w1'', ap_name = ''Car'', ap_value = 10000\<rparr> ''a1'' 7
                      example_state))) ''a1'' =
     Some \<lparr>a_id = ''a1'', a_willId = ''w1'', a_name = ''Car'', a_value = 10000,
            a_createdAt = 7\<rparr>"
proof -
  have h: "get_sbt (willsStorage example_state)
             (ap_willId \<lparr>ap_willId = ''w1'', ap_name = ''Car'', ap_value = 10000\<rparr>) = Some will1"
    by (simp add: example_state_def get_sbt_def)
  show ?thesis
    using h addAsset_postcondition [OF h refl refl, of "''a1''" 7]
    by (simp add: will1_def)
qed

subsection \<open>createWill\<close>

text \<open>
  C3. \<open>createWill\<close> returns an error of kind NotFoundError exactly when the \<open>userId\<close> of
  the payload is not a key of the users collection or its \<open>executorId\<close> is not a key of
  the executors collection, and it returns no other error. Otherwise it returns a will
  with the given \<open>userId\<close> and \<open>executorId\<close>, empty \<open>assets\<close> and \<open>beneficiaries\<close> and
  \<open>isExecuted\<close> false, and that will is stored under its id in the wills collection.
\<close>

theorem createWill_behaviour:
  fixes p uuid now s
  defines "will \<equiv> \<lparr>w_id = uuid, w_userId = wp_userId p, w_executorId = wp_executorId p,
                    w_assets = [], w_beneficiaries = [], w_createdAt = now,
                    w_isExecuted = False\<rparr>"
  shows "(is_error NotFoundError (fst (createWill p uuid now s)) \<longleftrightarrow>
            get_sbt (usersStorage s) (wp_userId p) = None \<or>
            get_sbt (executorsStorage s) (wp_executorId p) = None) \<and>
         (is_Err (fst (createWill p uuid now s)) \<longleftrightarrow>
            is_error NotFoundError (fst (createWill p uuid now s))) \<and>
         (get_sbt (usersStorage s) (wp_userId p) \<noteq> None \<and>
          get_sbt (executorsStorage s) (wp_executorId p) \<noteq> None \<longrightarrow>
            createWill p uuid now s =
              (Ok will, s\<lparr>willsStorage := insert_sbt uuid will (willsStorage s)\<rparr>) \<and>
            get_sbt (willsStorage (snd (createWill p uuid now s))) uuid = Some will \<and>
            w_assets will = [] \<and> w_beneficiaries will = [] \<and> \<not> w_isExecuted will \<and>
            w_userId will = wp_userId p \<and> w_executorId will = wp_executorId p)"
  by (auto simp: createWill_def will_def error_kind_def get_insert_sbt Let_def
      split: option.splits)

theorem createWill_behaviour_witness:
  "get_sbt (usersStorage example_state) ''u1'' \<noteq> None \<and>
   get_sbt (executorsStorage example_state) ''e2'' \<noteq> None \<and>
   get_sbt (willsStorage
      (snd (createWill \<lparr>wp_userId = ''u1'', wp_executorId = ''e2''\<rparr> ''w2'' 9 example_state)))
      ''w2'' =
     Some \<lparr>w_id = ''w2'', w_userId = ''u1'', w_executorId = ''e2'', w_assets = [],
            w_beneficiaries = [], w_createdAt = 9, w_isExecuted = False\<rparr> \<and>
   get_sbt (usersStorage example_state) ''u9'' = None \<and>
   is_error NotFoundError
     (fst (createWill \<lparr>wp_userId = ''u9'', wp_executorId = ''e2''\<rparr> ''w2'' 9 example_state))"
  using createWill_behaviour
      [where p = "\<lparr>wp_userId = ''u1'', wp_executorId = ''e2''\<rparr>" and uuid = "''w2''"
         and now = 9 and s = example_state]
    createWill_behaviour
      [where p = "\<lparr>wp_userId = ''u9'', wp_executorId = ''e2''\<rparr>" and uuid = "''w2''"
         and now = 9 and s = example_state]
  by (simp add: example_state_def get_sbt_def)

subsection \<open>assignExecutor\<close>

text \<open>
  C4. When the will \<open>willId\<close> is stored and \<open>executorId\<close> is a key of the executors
  collection, \<open>assignExecutor\<close> succeeds; after it, the will stored under \<open>willId\<close> has
  \<open>executorId\<close> as its executor and its \<open>id\<close>, \<open>userId\<close>, \<open>assets\<close>, \<open>beneficiaries\<close>,
  \<open>createdAt\<close> and \<open>isExecuted\<close> are what they were; the wills under other keys and the
  users, executors, assets and beneficiaries collections are unchanged.
\<close>

theorem assignExecutor_frame:
  assumes "get_sbt (willsStorage s) (xp_willId p) = Some w"
    and "get_sbt (executorsStorage s) (xp_executorId p) = Some e"
    and "s' = snd (assignExecutor p s)"
  shows "fst (assignExecutor p s) = Ok () \<and>
         (\<exists>w'. get_sbt (willsStorage s') (xp_willId p) = Some w' \<and>
            w_executorId w' = xp_executorId p \<and>
            w_id w' = w_id w \<and> w_userId w' = w_userId w \<and> w_assets w' = w_assets w \<and>
            w_beneficiaries w' = w_beneficiaries w \<and> w_createdAt w' = w_createdAt w \<and>
            w_isExecuted w' = w_isExecuted w) \<and>
         (\<forall>k. k \<noteq> xp_willId p \<longrightarrow> get_sbt (willsStorage s') k = get_sbt (willsStorage s) k) \<and>
         usersStorage s' = usersStorage s \<and> executorsStorage s' = executorsStorage s \<and>
         assetsStorage s' = assetsStorage s \<and>
         beneficiariesStorage s' = beneficiariesStorage s"
  using assms by (simp add: assignExecutor_def get_insert_sbt Let_def)

theorem assignExecutor_frame_witness:
  "get_sbt (willsStorage example_state) ''w1'' = Some will1 \<and>
   get_sbt (executorsStorage example_state) ''e2'' = Some dave \<and>
   fst (assignExecutor \<lparr>xp_willId = ''w1'', xp_executorId = ''e2''\<rparr> example_state) = Ok () \<and>
   usersStorage (snd (assignExecutor \<lparr>xp_willId = ''w1'', xp_executorId = ''e2''\<rparr>
      example_state)) = usersStorage example_state"
proof -
  have h1: "get_sbt (willsStorage example_state)
              (xp_willId \<lparr>xp_willId = ''w1'', xp_executorId = ''e2''\<rparr>) = Some will1"
    by (simp add: example_state_def get_sbt_def)
  have h2: "get_sbt (executorsStorage example_state)
              (xp_executorId \<lparr>xp_willId = ''w1'', xp_executorId = ''e2''\<rparr>) = Some dave"
    by (simp add: example_state_def get_sbt_def)
  show ?thesis
    using h1 h2 assignExecutor_frame [OF h1 h2 refl] by simp
qed

subsection \<open>createUser and createExecutor\<close>

text \<open>
  C5, as the specification states it, fails: \<open>createUser\<close> accepts a name that is a single
  space, and \<open>createExecutor\<close> a contact that is a single space.
\<close>

theorem creation_validation_counterexample:
  "whitespace_only '' '' \<and>
   \<not> is_error ValidationError
       (fst (createUser \<lparr>up_name = '' '', up_email = ''a@x.com''\<rparr> ''u1'' 0 init_state)) \<and>
   \<not> is_error ValidationError
       (fst (createExecutor \<lparr>ep_name = ''Bob'', ep_contact = '' ''\<rparr> ''e1'' 0 init_state))"
  by (simp add: whitespace_only_def createUser_def createExecutor_def Let_def)

text \<open>
  C5, amended. \<open>createUser\<close> returns an error of kind ValidationError exactly when the
  name or the email of the payload is the empty text, and \<open>createExecutor\<close> exactly when
  the name or the contact is; neither returns another error, and a call that returns an
  error leaves the state as it was. (A payload field is a text, never absent.)
\<close>

theorem creation_validation:
  "(is_error ValidationError (fst (createUser p uuid now s)) \<longleftrightarrow>
      up_name p = [] \<or> up_email p = []) \<and>
   (is_Err (fst (createUser p uuid now s)) \<longleftrightarrow>
      is_error ValidationError (fst (createUser p uuid now s))) \<and>
   (is_Err (fst (createUser p uuid now s)) \<longrightarrow> snd (createUser p uuid now s) = s) \<and>
   (is_error ValidationError (fst (createExecutor q uuid now s)) \<longleftrightarrow>
      ep_name q = [] \<or> ep_contact q = []) \<and>
   (is_Err (fst (createExecutor q uuid now s)) \<longleftrightarrow>
      is_error ValidationError (fst (createExecutor q uuid now s))) \<and>
   (is_Err (fst (createExecutor q uuid now s)) \<longrightarrow> snd (createExecutor q uuid now s) = s)"
  by (simp add: createUser_def createExecutor_def error_kind_def Let_def)

theorem creation_validation_witness:
  "is_Err (fst (createUser \<lparr>up_name = '''', up_email = ''a@x.com''\<rparr> ''u2'' 5 example_state)) \<and>
   snd (createUser \<lparr>up_name = '''', up_email = ''a@x.com''\<rparr> ''u2'' 5 example_state) =
     example_state \<and>
   is_Err (fst (createExecutor \<lparr>ep_name = ''Eve'', ep_contact = ''''\<rparr> ''u2'' 5
     example_state)) \<and>
   snd (createExecutor \<lparr>ep_name = ''Eve'', ep_contact = ''''\<rparr> ''u2'' 5 example_state) =
     example_state"
  using creation_validation
      [where p = "\<lparr>up_name = '''', up_email = ''a@x.com''\<rparr>"
         and q = "\<lparr>ep_name = ''Eve'', ep_contact = ''''\<rparr>"
         and uuid = "''u2''" and now = 5 and s = example_state]
  by simp

subsection \<open>Queries by id\<close>

text \<open>
  C9. \<open>getUser\<close> leaves the state as it was, and a second call on the state the first
  call leaves returns what the first returned (the same record or the same error); the
  same holds for \<open>getExecutor\<close> and \<open>getWill\<close>.
\<close>

theorem query_idempotent_pure:
  "snd (getUser i s) = s \<and> getUser i (snd (getUser i s)) = getUser i s \<and>
   snd (getExecutor i s) = s \<and> getExecutor i (snd (getExecutor i s)) = getExecutor i s \<and>
   snd (getWill i s) = s \<and> getWill i (snd (getWill i s)) = getWill i s"
  by (simp add: getUser_def getExecutor_def getWill_def split: option.splits)

subsection \<open>Errors leave the store as it was\<close>

text \<open>
  C10. Whatever the method and its input, a call that returns an error leaves the five
  collections exactly as they were before the call.
\<close>

theorem error_leaves_state:
  assumes "is_Err (fst (canister m uuid now s))"
  shows "snd (canister m uuid now s) = s"
  using assms
  by (cases m)
     (auto simp: map_Result_snd map_Result_is_Err createUser_def createExecutor_def
        createWill_def addAsset_def addBeneficiary_def assignExecutor_def getUser_def
        getAllUsers_def getExecutor_def getAllExecutors_def getWill_def getAllWills_def
        Let_def split: option.splits if_splits)

theorem error_leaves_state_witness:
  "is_Err (fst (canister (AssignExecutor \<lparr>xp_willId = ''w1'', xp_executorId = ''e7''\<rparr>)
                 ''x1'' 8 example_state)) \<and>
   snd (canister (AssignExecutor \<lparr>xp_willId = ''w1'', xp_executorId = ''e7''\<rparr>)
          ''x1'' 8 example_state) = example_state"
proof -
  have h: "is_Err (fst (canister (AssignExecutor \<lparr>xp_willId = ''w1'', xp_executorId = ''e7''\<rparr>)
                 ''x1'' 8 example_state))"
    by (simp add: assignExecutor_def example_state_def get_sbt_def)
  show ?thesis
    using h error_leaves_state [OF h] by simp
qed

subsection \<open>What a step does to the wills collection\<close>

lemma values_insert_sbtD:
  "x \<in> set (values_sbt (insert_sbt k v m)) \<Longrightarrow> x = v \<or> x \<in> set (values_sbt m)"
  using set_values_insert_sbt [of k v m] by blast

lemma get_sbt_values: "get_sbt m k = Some v \<Longrightarrow> v \<in> set (values_sbt m)"
  by (auto simp: values_sbt_def dest!: get_sbt_Some_mem intro: rev_image_eqI)

lemma isExecuted_step:
  assumes "\<forall>w \<in> set (values_sbt (willsStorage s)). \<not> w_isExecuted w"
  shows "\<forall>w \<in> set (values_sbt (willsStorage (snd (canister m uuid now s)))). \<not> w_isExecuted w"
proof (cases m)
  case (CreateWill p)
  with assms show ?thesis
    by (auto simp: createWill_def Let_def split: option.splits dest!: values_insert_sbtD)
next
  case (AddAsset p)
  with assms show ?thesis
    by (auto simp: addAsset_def Let_def split: option.splits
        dest!: values_insert_sbtD dest: get_sbt_values)
next
  case (AddBeneficiary p)
  with assms show ?thesis
    by (auto simp: addBeneficiary_def Let_def split: option.splits
        dest!: values_insert_sbtD dest: get_sbt_values)
next
  case (AssignExecutor p)
  with assms show ?thesis
    by (auto simp: assignExecutor_def Let_def split: option.splits
        dest!: values_insert_sbtD dest: get_sbt_values)
qed (use assms in \<open>simp_all add: map_Result_snd createUser_def createExecutor_def getUser_def
      getAllUsers_def getExecutor_def getAllExecutors_def getWill_def getAllWills_def Let_def
      split: option.splits\<close>)

lemma isExecuted_run:
  "\<forall>w \<in> set (values_sbt (willsStorage s)). \<not> w_isExecuted w \<Longrightarrow>
   \<forall>w \<in> set (values_sbt (willsStorage (run cs s))). \<not> w_isExecuted w"
proof (induction cs arbitrary: s)
  case Nil
  then show ?case by simp
next
  case (Cons c cs)
  obtain m uuid now where c: "c = (m, uuid, now)" by (cases c)
  from Cons.prems have "\<forall>w \<in> set (values_sbt (willsStorage (snd (canister m uuid now s)))).
      \<not> w_isExecuted w"
    by (rule isExecuted_step)
  then have "\<forall>w \<in> set (values_sbt (willsStorage (run cs (snd (canister m uuid now s))))).
      \<not> w_isExecuted w"
    by (rule Cons.IH)
  with c show ?case by simp
qed

subsection \<open>isExecuted\<close>

text \<open>
  C7. After any sequence of calls from the empty store, with whatever identifiers and
  times, every will of the wills collection has \<open>isExecuted\<close> false, and so has every will
  that \<open>getWill\<close> returns.
\<close>

theorem isExecuted_never_true:
  "(\<forall>w \<in> set (values_sbt (willsStorage (run cs init_state))). \<not> w_isExecuted w) \<and>
   (\<forall>i w. fst (getWill i (run cs init_state)) = Ok w \<longrightarrow> \<not> w_isExecuted w)"
proof -
  have a: "\<forall>w \<in> set (values_sbt (willsStorage (run cs init_state))). \<not> w_isExecuted w"
    by (rule isExecuted_run) (simp add: init_state_def values_sbt_def)
  have "\<not> w_isExecuted w" if "fst (getWill i (run cs init_state)) = Ok w" for i w
  proof -
    from that have "get_sbt (willsStorage (run cs init_state)) i = Some w"
      by (simp add: getWill_def split: option.splits)
    then have "w \<in> set (values_sbt (willsStorage (run cs init_state)))"
      by (rule get_sbt_values)
    with a show ?thesis by blast
  qed
  with a show ?thesis by blast
qed

theorem isExecuted_never_true_witness:
  "will1 \<in> set (values_sbt (willsStorage (run example_calls init_state))) \<and>
   \<not> w_isExecuted will1 \<and>
   fst (getWill ''w1'' (run example_calls init_state)) = Ok will1"
  using isExecuted_never_true [of example_calls]
  by (simp add: example_run example_state_def values_sbt_def getWill_def get_sbt_def)

subsection \<open>What a successful call returns\<close>

text \<open>
  C8, as the specification states it, fails: on the example store, successful calls of
  \<open>addAsset\<close>, \<open>addBeneficiary\<close> and \<open>assignExecutor\<close> return Null, while the asset and
  the beneficiary they created are in the store.
\<close>

theorem successful_output_counterexample:
  "canister (AddAsset \<lparr>ap_willId = ''w1'', ap_name = ''Car'', ap_value = 10000\<rparr>) ''a1'' 7
     example_state =
     (Ok RNull,
      example_state\<lparr>
        willsStorage := [(''w1'', will1\<lparr>w_assets :=
          [\<lparr>a_id = ''a1'', a_willId = ''w1'', a_name = ''Car'', a_value = 10000,
             a_createdAt = 7\<rparr>]\<rparr>)],
        assetsStorage :=
          [(''a1'', \<lparr>a_id = ''a1'', a_willId = ''w1'', a_name = ''Car'', a_value = 10000,
             a_createdAt = 7\<rparr>)]\<rparr>) \<and>
   fst (canister (AddBeneficiary \<lparr>bp_willId = ''w1'', bp_name = ''Carol'', bp_share = 100\<rparr>)
          ''b1'' 8 example_state) = Ok RNull \<and>
   fst (canister (AssignExecutor \<lparr>xp_willId = ''w1'', xp_executorId = ''e2''\<rparr>)
          ''x1'' 9 example_state) = Ok RNull"
  by (simp add: addAsset_def addBeneficiary_def assignExecutor_def example_state_def
      get_sbt_def will1_def Let_def)

text \<open>
  C8, amended. A successful \<open>createUser\<close>, \<open>createExecutor\<close> or \<open>createWill\<close> returns the
  record it created, which is the record stored under the new id; a successful \<open>getUser\<close>,
  \<open>getExecutor\<close> or \<open>getWill\<close> returns the record stored under the id asked for; a
  successful \<open>getAllUsers\<close>, \<open>getAllExecutors\<close> or \<open>getAllWills\<close> returns the records
  of the collection; a successful \<open>addAsset\<close>, \<open>addBeneficiary\<close> or \<open>assignExecutor\<close>
  returns Null.
\<close>

theorem successful_output:
  assumes "canister m uuid now s = (Ok r, s')"
  shows "returns_record m uuid s r s'"
  using assms
  by (cases m)
     (auto simp: createUser_def createExecutor_def createWill_def addAsset_def
        addBeneficiary_def assignExecutor_def getUser_def getAllUsers_def getExecutor_def
        getAllExecutors_def getWill_def getAllWills_def get_insert_sbt Let_def
        split: option.splits if_splits)

theorem successful_output_witness:
  "canister (CreateWill \<lparr>wp_userId = ''u1'', wp_executorId = ''e2''\<rparr>) ''w2'' 9 example_state =
     (Ok (RWill \<lparr>w_id = ''w2'', w_userId = ''u1'', w_executorId = ''e2'', w_assets = [],
            w_beneficiaries = [], w_createdAt = 9, w_isExecuted = False\<rparr>),
      example_state\<lparr>willsStorage := [(''w1'', will1),
        (''w2'', \<lparr>w_id = ''w2'', w_userId = ''u1'', w_executorId = ''e2'', w_assets = [],
            w_beneficiaries = [], w_createdAt = 9, w_isExecuted = False\<rparr>)]\<rparr>) \<and>
   returns_record (CreateWill \<lparr>wp_userId = ''u1'', wp_executorId = ''e2''\<rparr>) ''w2''
     example_state
     (RWill \<lparr>w_id = ''w2'', w_userId = ''u1'', w_executorId = ''e2'', w_assets = [],
            w_beneficiaries = [], w_createdAt = 9, w_isExecuted = False\<rparr>)
     (example_state\<lparr>willsStorage := [(''w1'', will1),
        (''w2'', \<lparr>w_id = ''w2'', w_userId = ''u1'', w_executorId = ''e2'', w_assets = [],
            w_beneficiaries = [], w_createdAt = 9, w_isExecuted = False\<rparr>)]\<rparr>)"
proof -
  have h: "canister (CreateWill \<lparr>wp_userId = ''u1'', wp_executorId = ''e2''\<rparr>) ''w2'' 9
      example_state =
     (Ok (RWill \<lparr>w_id = ''w2'', w_userId = ''u1'', w_executorId = ''e2'', w_assets = [],
            w_beneficiaries = [], w_createdAt = 9, w_isExecuted = False\<rparr>),
      example_state\<lparr>willsStorage := [(''w1'', will1),
        (''w2'', \<lparr>w_id = ''w2'', w_userId = ''u1'', w_executorId = ''e2'', w_assets = [],
            w_beneficiaries = [], w_createdAt = 9, w_isExecuted = False\<rparr>)]\<rparr>)"
    by (simp add: createWill_def example_state_def get_sbt_def Let_def)
  from h successful_output [OF h] show ?thesis by blast
qed

subsection \<open>Keys stay distinct\<close>

lemma keys_distinct_step: "keys_distinct s \<Longrightarrow> keys_distinct (snd (canister m uuid now s))"
  by (cases m)
     (simp_all add: keys_distinct_def map_Result_snd createUser_def createExecutor_def
        createWill_def addAsset_def addBeneficiary_def assignExecutor_def getUser_def
        getAllUsers_def getExecutor_def getAllExecutors_def getWill_def getAllWills_def
        distinct_insert_sbt Let_def split: option.splits)

lemma keys_distinct_run: "keys_distinct s \<Longrightarrow> keys_distinct (run cs s)"
proof (induction cs arbitrary: s)
  case Nil
  then show ?case by simp
next
  case (Cons c cs)
  obtain m uuid now where c: "c = (m, uuid, now)" by (cases c)
  from Cons.prems have "keys_distinct (snd (canister m uuid now s))"
    by (rule keys_distinct_step)
  then have "keys_distinct (run cs (snd (canister m uuid now s)))"
    by (rule Cons.IH)
  with c show ?case by simp
qed

lemma keys_distinct_init: "keys_distinct init_state"
  by (simp add: keys_distinct_def init_state_def keys_sbt_def)

subsection \<open>The users collection and the users created\<close>

lemma users_step:
  assumes "fresh_id uuid s"
  shows "values_sbt (usersStorage (snd (canister m uuid now s))) =
         values_sbt (usersStorage s) @ created_user m uuid now s"
proof (cases m)
  case (CreateUser p)
  from assms have "uuid \<notin> set (keys_sbt (usersStorage s))"
    by (simp add: fresh_id_def)
  with CreateUser show ?thesis
    by (simp add: created_user_def createUser_def values_insert_sbt_fresh Let_def)
qed (simp_all add: created_user_def map_Result_snd createExecutor_def
      createWill_def addAsset_def addBeneficiary_def assignExecutor_def getUser_def
      getAllUsers_def getExecutor_def getAllExecutors_def getWill_def getAllWills_def
      Let_def split: option.splits)

lemma users_run:
  "fresh_run cs s \<Longrightarrow>
   values_sbt (usersStorage (run cs s)) = values_sbt (usersStorage s) @ created_users cs s"
proof (induction cs arbitrary: s)
  case Nil
  then show ?case by simp
next
  case (Cons c cs)
  obtain m uuid now where c: "c = (m, uuid, now)" by (cases c)
  with Cons.prems have f: "fresh_id uuid s"
    and r: "fresh_run cs (snd (canister m uuid now s))"
    by simp_all
  from r have "values_sbt (usersStorage (run cs (snd (canister m uuid now s)))) =
      values_sbt (usersStorage (snd (canister m uuid now s))) @
      created_users cs (snd (canister m uuid now s))"
    by (rule Cons.IH)
  with c users_step [OF f, of m now] show ?case by simp
qed

lemma values_sbt_empty_iff: "values_sbt m = [] \<longleftrightarrow> dom (get_sbt m) = {}"
proof -
  have "dom (get_sbt m) = fst ` set m"
    by (simp add: get_sbt_def [abs_def] dom_map_of_conv_image_fst)
  then show ?thesis by (simp add: values_sbt_def)
qed

subsection \<open>Listing a collection\<close>

text \<open>
  C6. In the store \<open>s\<close> that a sequence of calls \<open>cs\<close> leaves, \<open>getAllUsers\<close> returns an
  error, of kind EmptyCollectionError, exactly when no key of the users collection has a
  record; otherwise it returns a list that has exactly the records of the collection, each
  once. When every call drew a fresh identifier, the error is returned exactly when no
  user has been created, and the list has exactly the users created by the calls.
  \<open>getAllExecutors\<close> and \<open>getAllWills\<close> do the same on their collections.
\<close>

theorem list_all_semantics:
  fixes cs
  defines "s \<equiv> run cs init_state"
  shows "(is_error EmptyCollectionError (fst (getAllUsers s)) \<longleftrightarrow>
            dom (get_sbt (usersStorage s)) = {}) \<and>
         (is_Err (fst (getAllUsers s)) \<longleftrightarrow>
            is_error EmptyCollectionError (fst (getAllUsers s))) \<and>
         (\<forall>us. fst (getAllUsers s) = Ok us \<longrightarrow>
            set us = ran (get_sbt (usersStorage s)) \<and>
            length us = card (dom (get_sbt (usersStorage s)))) \<and>
         (fresh_run cs init_state \<longrightarrow>
            (is_Err (fst (getAllUsers s)) \<longleftrightarrow> created_users cs init_state = []) \<and>
            (\<forall>us. fst (getAllUsers s) = Ok us \<longrightarrow> set us = set (created_users cs init_state))) \<and>
         (is_error EmptyCollectionError (fst (getAllExecutors s)) \<longleftrightarrow>
            dom (get_sbt (executorsStorage s)) = {}) \<and>
         (is_Err (fst (getAllExecutors s)) \<longleftrightarrow>
            is_error EmptyCollectionError (fst (getAllExecutors s))) \<and>
         (\<forall>es. fst (getAllExecutors s) = Ok es \<longrightarrow>
            set es = ran (get_sbt (executorsStorage s)) \<and>
            length es = card (dom (get_sbt (executorsStorage s)))) \<and>
         (is_error EmptyCollectionError (fst (getAllWills s)) \<longleftrightarrow>
            dom (get_sbt (willsStorage s)) = {}) \<and>
         (is_Err (fst (getAllWills s)) \<longleftrightarrow>
            is_error EmptyCollectionError (fst (getAllWills s))) \<and>
         (\<forall>ws. fst (getAllWills s) = Ok ws \<longrightarrow>
            set ws = ran (get_sbt (willsStorage s)) \<and>
            length ws = card (dom (get_sbt (willsStorage s))))"
proof -
  have "keys_distinct s"
    unfolding s_def by (rule keys_distinct_run) (rule keys_distinct_init)
  then have du: "distinct (keys_sbt (usersStorage s))"
    and de: "distinct (keys_sbt (executorsStorage s))"
    and dw: "distinct (keys_sbt (willsStorage s))"
    by (simp_all add: keys_distinct_def)
  have users: "(is_error EmptyCollectionError (fst (getAllUsers s)) \<longleftrightarrow>
            dom (get_sbt (usersStorage s)) = {}) \<and>
         (is_Err (fst (getAllUsers s)) \<longleftrightarrow>
            is_error EmptyCollectionError (fst (getAllUsers s))) \<and>
         (\<forall>us. fst (getAllUsers s) = Ok us \<longrightarrow>
            set us = ran (get_sbt (usersStorage s)) \<and>
            length us = card (dom (get_sbt (usersStorage s))))"
    using values_sbt_empty_iff [of "usersStorage s"]
    by (auto simp: getAllUsers_def error_kind_def Let_def ran_get_sbt [OF du]
        card_dom_get_sbt [OF du])
  have executors: "(is_error EmptyCollectionError (fst (getAllExecutors s)) \<longleftrightarrow>
            dom (get_sbt (executorsStorage s)) = {}) \<and>
         (is_Err (fst (getAllExecutors s)) \<longleftrightarrow>
            is_error EmptyCollectionError (fst (getAllExecutors s))) \<and>
         (\<forall>es. fst (getAllExecutors s) = Ok es \<longrightarrow>
            set es = ran (get_sbt (executorsStorage s)) \<and>
            length es = card (dom (get_sbt (executorsStorage s))))"
    using values_sbt_empty_iff [of "executorsStorage s"]
    by (auto simp: getAllExecutors_def error_kind_def Let_def ran_get_sbt [OF de]
        card_dom_get_sbt [OF de])
  have wills: "(is_error EmptyCollectionError (fst (getAllWills s)) \<longleftrightarrow>
            dom (get_sbt (willsStorage s)) = {}) \<and>
         (is_Err (fst (getAllWills s)) \<longleftrightarrow>
            is_error EmptyCollectionError (fst (getAllWills s))) \<and>
         (\<forall>ws. fst (getAllWills s) = Ok ws \<longrightarrow>
            set ws = ran (get_sbt (willsStorage s)) \<and>
            length ws = card (dom (get_sbt (willsStorage s))))"
    using values_sbt_empty_iff [of "willsStorage s"]
    by (auto simp: getAllWills_def error_kind_def Let_def ran_get_sbt [OF dw]
        card_dom_get_sbt [OF dw])
  have created: "(is_Err (fst (getAllUsers s)) \<longleftrightarrow> created_users cs init_state = []) \<and>
            (\<forall>us. fst (getAllUsers s) = Ok us \<longrightarrow> set us = set (created_users cs init_state))"
    if "fresh_run cs init_state"
  proof -
    have "values_sbt (usersStorage init_state) = []"
      by (simp add: init_state_def values_sbt_def)
    with users_run [OF that]
    have "values_sbt (usersStorage s) = created_users cs init_state"
      unfolding s_def by simp
    then show ?thesis
      by (auto simp: getAllUsers_def Let_def)
  qed
  from users executors wills created show ?thesis
    by blast
qed

theorem list_all_semantics_witness:
  "fresh_run example_calls init_state \<and>
   fst (getAllUsers (run example_calls init_state)) = Ok [alice] \<and>
   set [alice] = set (created_users example_calls init_state) \<and>
   set [alice] = ran (get_sbt (usersStorage (run example_calls init_state))) \<and>
   dom (get_sbt (usersStorage (run [] init_state))) = {} \<and>
   is_error EmptyCollectionError (fst (getAllUsers (run [] init_state)))"
proof -
  have g: "fst (getAllUsers (run example_calls init_state)) = Ok [alice]"
    by (simp add: example_run example_state_def getAllUsers_def values_sbt_def)
  have e: "dom (get_sbt (usersStorage (run [] init_state))) = {}"
    by (simp add: init_state_def get_sbt_def [abs_def])
  from example_fresh g e list_all_semantics [of example_calls] list_all_semantics [of "[]"]
  show ?thesis
    by (metis (no_types, lifting))
qed

subsection \<open>The embedded lists and the standalone collections\<close>

lemma frame_invariants:
  assumes "willsStorage s' = willsStorage s"
    and "assetsStorage s' = assetsStorage s"
    and "beneficiariesStorage s' = beneficiariesStorage s"
  shows "references_ok s' = references_ok s"
    and "dual_write_consistent s' = dual_write_consistent s"
  using assms by (simp_all add: references_ok_def dual_write_consistent_def)

lemma will_stored_id:
  assumes "references_ok s" and "get_sbt (willsStorage s) k = Some w"
  shows "w_id w = k"
proof -
  from assms(2) have "(k, w) \<in> set (willsStorage s)"
    by (rule get_sbt_Some_mem)
  with assms(1) show ?thesis
    by (auto simp: references_ok_def)
qed

lemma will_value_entry:
  "w \<in> set (values_sbt m) \<Longrightarrow> \<exists>k. (k, w) \<in> set m"
  by (auto simp: values_sbt_def)

lemma createWill_invariants:
  assumes r: "references_ok s" and c: "dual_write_consistent s" and f: "fresh_id uuid s"
  shows "references_ok (snd (createWill p uuid now s)) \<and>
         dual_write_consistent (snd (createWill p uuid now s))"
proof (cases "fst (createWill p uuid now s)")
  case (Err e)
  then have "snd (createWill p uuid now s) = s"
    by (auto simp: createWill_def Let_def split: option.splits)
  with r c show ?thesis by simp
next
  case (Ok will)
  from f have nk: "uuid \<notin> set (keys_sbt (willsStorage s))"
    by (simp add: fresh_id_def)
  from Ok have will: "will = \<lparr>w_id = uuid, w_userId = wp_userId p,
      w_executorId = wp_executorId p, w_assets = [], w_beneficiaries = [],
      w_createdAt = now, w_isExecuted = False\<rparr>"
    and s': "snd (createWill p uuid now s) =
      s\<lparr>willsStorage := willsStorage s @ [(uuid, will)]\<rparr>"
    using nk by (auto simp: createWill_def insert_sbt_fresh Let_def split: option.splits)
  have no_asset: "filter (\<lambda>a. a_willId a = uuid) (values_sbt (assetsStorage s)) = []"
    using r nk by (auto simp: references_ok_def filter_empty_conv)
  have no_benef: "filter (\<lambda>b. b_willId b = uuid) (values_sbt (beneficiariesStorage s)) = []"
    using r nk by (auto simp: references_ok_def filter_empty_conv)
  have "references_ok (s\<lparr>willsStorage := willsStorage s @ [(uuid, will)]\<rparr>)"
    using r will by (auto simp: references_ok_def keys_sbt_def)
  moreover have "dual_write_consistent (s\<lparr>willsStorage := willsStorage s @ [(uuid, will)]\<rparr>)"
    using c will no_asset no_benef
    by (auto simp: dual_write_consistent_def values_sbt_def)
  ultimately show ?thesis using s' by simp
qed

lemma addAsset_invariants:
  assumes d: "keys_distinct s" and r: "references_ok s" and c: "dual_write_consistent s"
    and f: "fresh_id uuid s"
  shows "references_ok (snd (addAsset p uuid now s)) \<and>
         dual_write_consistent (snd (addAsset p uuid now s))"
proof (cases "get_sbt (willsStorage s) (ap_willId p)")
  case None
  then have "snd (addAsset p uuid now s) = s"
    by (simp add: addAsset_def)
  with r c show ?thesis by simp
next
  case (Some w)
  define wid where "wid = ap_willId p"
  define asset where "asset = \<lparr>a_id = uuid, a_willId = wid, a_name = ap_name p,
      a_value = ap_value p, a_createdAt = now\<rparr>"
  define w' where "w' = w\<lparr>w_assets := w_assets w @ [asset]\<rparr>"
  define s' where "s' = s\<lparr>willsStorage := insert_sbt wid w' (willsStorage s),
      assetsStorage := assetsStorage s @ [(uuid, asset)]\<rparr>"
  from f have "uuid \<notin> set (keys_sbt (assetsStorage s))"
    by (simp add: fresh_id_def)
  with Some have s'_eq: "snd (addAsset p uuid now s) = s'"
    by (simp add: addAsset_def s'_def w'_def asset_def wid_def insert_sbt_fresh Let_def)
  from Some have get: "get_sbt (willsStorage s) wid = Some w"
    by (simp add: wid_def)
  from r get have idw: "w_id w = wid"
    by (rule will_stored_id)
  from get have mem: "(wid, w) \<in> set (willsStorage s)"
    by (rule get_sbt_Some_mem)
  from d have dw: "distinct (keys_sbt (willsStorage s))"
    by (simp add: keys_distinct_def)
  have wills': "set (willsStorage s') = insert (wid, w') {e \<in> set (willsStorage s). fst e \<noteq> wid}"
    by (simp add: s'_def set_insert_sbt [OF dw])
  from mem have "wid \<in> set (keys_sbt (willsStorage s))"
    by (auto simp: keys_sbt_def intro: rev_image_eqI)
  then have keys': "set (keys_sbt (willsStorage s')) = set (keys_sbt (willsStorage s))"
    by (auto simp: s'_def keys_insert_sbt)
  have assets': "values_sbt (assetsStorage s') = values_sbt (assetsStorage s) @ [asset]"
    by (simp add: s'_def values_sbt_def)
  have benefs': "beneficiariesStorage s' = beneficiariesStorage s"
    by (simp add: s'_def)
  have "references_ok s'"
    unfolding references_ok_def
  proof (intro conjI ballI)
    fix e assume "e \<in> set (willsStorage s')"
    with wills' have "e = (wid, w') \<or> e \<in> set (willsStorage s)" by auto
    then show "w_id (snd e) = fst e"
      using r idw by (auto simp: references_ok_def w'_def)
  next
    fix a assume "a \<in> set (values_sbt (assetsStorage s'))"
    with assets' have "a = asset \<or> a \<in> set (values_sbt (assetsStorage s))" by auto
    then show "a_willId a \<in> set (keys_sbt (willsStorage s'))"
      using r \<open>wid \<in> set (keys_sbt (willsStorage s))\<close> keys'
      by (auto simp: references_ok_def asset_def)
  next
    fix b assume "b \<in> set (values_sbt (beneficiariesStorage s'))"
    with benefs' r keys' show "b_willId b \<in> set (keys_sbt (willsStorage s'))"
      by (simp add: references_ok_def)
  qed
  moreover have "dual_write_consistent s'"
    unfolding dual_write_consistent_def
  proof (intro ballI)
    fix x assume "x \<in> set (values_sbt (willsStorage s'))"
    then obtain k where "(k, x) \<in> set (willsStorage s')"
      by (auto dest: will_value_entry)
    with wills' consider "k = wid" "x = w'" | "k \<noteq> wid" "(k, x) \<in> set (willsStorage s)"
      by auto
    then show "w_assets x = filter (\<lambda>a. a_willId a = w_id x) (values_sbt (assetsStorage s')) \<and>
        w_beneficiaries x =
          filter (\<lambda>b. b_willId b = w_id x) (values_sbt (beneficiariesStorage s'))"
    proof cases
      case 1
      from mem have "w \<in> set (values_sbt (willsStorage s))"
        by (auto simp: values_sbt_def intro: rev_image_eqI)
      with c have "w_assets w = filter (\<lambda>a. a_willId a = w_id w) (values_sbt (assetsStorage s))"
        and "w_beneficiaries w =
          filter (\<lambda>b. b_willId b = w_id w) (values_sbt (beneficiariesStorage s))"
        by (simp_all add: dual_write_consistent_def)
      with 1 idw show ?thesis
        by (simp add: w'_def assets' benefs' asset_def)
    next
      case 2
      then have "x \<in> set (values_sbt (willsStorage s))"
        by (auto simp: values_sbt_def intro: rev_image_eqI)
      with c have "w_assets x = filter (\<lambda>a. a_willId a = w_id x) (values_sbt (assetsStorage s))"
        and "w_beneficiaries x =
          filter (\<lambda>b. b_willId b = w_id x) (values_sbt (beneficiariesStorage s))"
        by (simp_all add: dual_write_consistent_def)
      moreover from r 2 have "w_id x = k"
        by (auto simp: references_ok_def)
      ultimately show ?thesis
        using 2 by (simp add: assets' benefs' asset_def)
    qed
  qed
  ultimately show ?thesis using s'_eq by simp
qed

lemma addBeneficiary_invariants:
  assumes d: "keys_distinct s" and r: "references_ok s" and c: "dual_write_consistent s"
    and f: "fresh_id uuid s"
  shows "references_ok (snd (addBeneficiary p uuid now s)) \<and>
         dual_write_consistent (snd (addBeneficiary p uuid now s))"
proof (cases "get_sbt (willsStorage s) (bp_willId p)")
  case None
  then have "snd (addBeneficiary p uuid now s) = s"
    by (simp add: addBeneficiary_def)
  with r c show ?thesis by simp
next
  case (Some w)
  define wid where "wid = bp_willId p"
  define benef where "benef = \<lparr>b_id = uuid, b_willId = wid, b_name = bp_name p,
      b_share = bp_share p, b_createdAt = now\<rparr>"
  define w' where "w' = w\<lparr>w_beneficiaries := w_beneficiaries w @ [benef]\<rparr>"
  define s' where "s' = s\<lparr>willsStorage := insert_sbt wid w' (willsStorage s),
      beneficiariesStorage := beneficiariesStorage s @ [(uuid, benef)]\<rparr>"
  from f have "uuid \<notin> set (keys_sbt (beneficiariesStorage s))"
    by (simp add: fresh_id_def)
  with Some have s'_eq: "snd (addBeneficiary p uuid now s) = s'"
    by (simp add: addBeneficiary_def s'_def w'_def benef_def wid_def insert_sbt_fresh Let_def)
  from Some have get: "get_sbt (willsStorage s) wid = Some w"
    by (simp add: wid_def)
  from r get have idw: "w_id w = wid"
    by (rule will_stored_id)
  from get have mem: "(wid, w) \<in> set (willsStorage s)"
    by (rule get_sbt_Some_mem)
  from d have dw: "distinct (keys_sbt (willsStorage s))"
    by (simp add: keys_distinct_def)
  have wills': "set (willsStorage s') = insert (wid, w') {e \<in> set (willsStorage s). fst e \<noteq> wid}"
    by (simp add: s'_def set_insert_sbt [OF dw])
  from mem have widk: "wid \<in> set (keys_sbt (willsStorage s))"
    by (auto simp: keys_sbt_def intro: rev_image_eqI)
  then have keys': "set (keys_sbt (willsStorage s')) = set (keys_sbt (willsStorage s))"
    by (auto simp: s'_def keys_insert_sbt)
  have benefs': "values_sbt (beneficiariesStorage s') =
      values_sbt (beneficiariesStorage s) @ [benef]"
    by (simp add: s'_def values_sbt_def)
  have assets': "assetsStorage s' = assetsStorage s"
    by (simp add: s'_def)
  have "references_ok s'"
    unfolding references_ok_def
  proof (intro conjI ballI)
    fix e assume "e \<in> set (willsStorage s')"
    with wills' have "e = (wid, w') \<or> e \<in> set (willsStorage s)" by auto
    then show "w_id (snd e) = fst e"
      using r idw by (auto simp: references_ok_def w'_def)
  next
    fix a assume "a \<in> set (values_sbt (assetsStorage s'))"
    with assets' r keys' show "a_willId a \<in> set (keys_sbt (willsStorage s'))"
      by (simp add: references_ok_def)
  next
    fix b assume "b \<in> set (values_sbt (beneficiariesStorage s'))"
    with benefs' have "b = benef \<or> b \<in> set (values_sbt (beneficiariesStorage s))" by auto
    then show "b_willId b \<in> set (keys_sbt (willsStorage s'))"
      using r widk keys' by (auto simp: references_ok_def benef_def)
  qed
  moreover have "dual_write_consistent s'"
    unfolding dual_write_consistent_def
  proof (intro ballI)
    fix x assume "x \<in> set (values_sbt (willsStorage s'))"
    then obtain k where "(k, x) \<in> set (willsStorage s')"
      by (auto dest: will_value_entry)
    with wills' consider "k = wid" "x = w'" | "k \<noteq> wid" "(k, x) \<in> set (willsStorage s)"
      by auto
    then show "w_assets x = filter (\<lambda>a. a_willId a = w_id x) (values_sbt (assetsStorage s')) \<and>
        w_beneficiaries x =
          filter (\<lambda>b. b_willId b = w_id x) (values_sbt (beneficiariesStorage s'))"
    proof cases
      case 1
      from mem have "w \<in> set (values_sbt (willsStorage s))"
        by (auto simp: values_sbt_def intro: rev_image_eqI)
      with c have "w_assets w = filter (\<lambda>a. a_willId a = w_id w) (values_sbt (assetsStorage s))"
        and "w_beneficiaries w =
          filter (\<lambda>b. b_willId b = w_id w) (values_sbt (beneficiariesStorage s))"
        by (simp_all add: dual_write_consistent_def)
      with 1 idw show ?thesis
        by (simp add: w'_def assets' benefs' benef_def)
    next
      case 2
      then have "x \<in> set (values_sbt (willsStorage s))"
        by (auto simp: values_sbt_def intro: rev_image_eqI)
      with c have "w_assets x = filter (\<lambda>a. a_willId a = w_id x) (values_sbt (assetsStorage s))"
        and "w_beneficiaries x =
          filter (\<lambda>b. b_willId b = w_id x) (values_sbt (beneficiariesStorage s))"
        by (simp_all add: dual_write_consistent_def)
      moreover from r 2 have "w_id x = k"
        by (auto simp: references_ok_def)
      ultimately show ?thesis
        using 2 by (simp add: assets' benefs' benef_def)
    qed
  qed
  ultimately show ?thesis using s'_eq by simp
qed

lemma assignExecutor_invariants:
  assumes d: "keys_distinct s" and r: "references_ok s" and c: "dual_write_consistent s"
  shows "references_ok (snd (assignExecutor p s)) \<and>
         dual_write_consistent (snd (assignExecutor p s))"
proof (cases "fst (assignExecutor p s)")
  case (Err e)
  then have "snd (assignExecutor p s) = s"
    by (auto simp: assignExecutor_def Let_def split: option.splits)
  with r c show ?thesis by simp
next
  case (Ok u)
  then obtain w where get: "get_sbt (willsStorage s) (xp_willId p) = Some w"
    and s'_eq: "snd (assignExecutor p s) =
      s\<lparr>willsStorage := insert_sbt (xp_willId p) (w\<lparr>w_executorId := xp_executorId p\<rparr>)
        (willsStorage s)\<rparr>"
    by (auto simp: assignExecutor_def Let_def split: option.splits)
  define wid where "wid = xp_willId p"
  define w' where "w' = w\<lparr>w_executorId := xp_executorId p\<rparr>"
  define s' where "s' = s\<lparr>willsStorage := insert_sbt wid w' (willsStorage s)\<rparr>"
  from r get have idw: "w_id w = wid"
    unfolding wid_def by (rule will_stored_id)
  from get have mem: "(wid, w) \<in> set (willsStorage s)"
    unfolding wid_def by (rule get_sbt_Some_mem)
  from d have dw: "distinct (keys_sbt (willsStorage s))"
    by (simp add: keys_distinct_def)
  have wills': "set (willsStorage s') = insert (wid, w') {e \<in> set (willsStorage s). fst e \<noteq> wid}"
    by (simp add: s'_def set_insert_sbt [OF dw])
  from mem have "wid \<in> set (keys_sbt (willsStorage s))"
    by (auto simp: keys_sbt_def intro: rev_image_eqI)
  then have keys': "set (keys_sbt (willsStorage s')) = set (keys_sbt (willsStorage s))"
    by (auto simp: s'_def keys_insert_sbt)
  have others: "assetsStorage s' = assetsStorage s"
    "beneficiariesStorage s' = beneficiariesStorage s"
    by (simp_all add: s'_def)
  from mem have wv: "w \<in> set (values_sbt (willsStorage s))"
    by (auto simp: values_sbt_def intro: rev_image_eqI)
  have "references_ok s'"
    unfolding references_ok_def
  proof (intro conjI ballI)
    fix e assume "e \<in> set (willsStorage s')"
    with wills' have "e = (wid, w') \<or> e \<in> set (willsStorage s)" by auto
    then show "w_id (snd e) = fst e"
      using r idw by (auto simp: references_ok_def w'_def)
  next
    fix a assume "a \<in> set (values_sbt (assetsStorage s'))"
    with others r keys' show "a_willId a \<in> set (keys_sbt (willsStorage s'))"
      by (simp add: references_ok_def)
  next
    fix b assume "b \<in> set (values_sbt (beneficiariesStorage s'))"
    with others r keys' show "b_willId b \<in> set (keys_sbt (willsStorage s'))"
      by (simp add: references_ok_def)
  qed
  moreover have "dual_write_consistent s'"
    unfolding dual_write_consistent_def
  proof (intro ballI)
    fix x assume "x \<in> set (values_sbt (willsStorage s'))"
    then obtain k where "(k, x) \<in> set (willsStorage s')"
      by (auto dest: will_value_entry)
    with wills' have "x = w' \<or> x \<in> set (values_sbt (willsStorage s))"
      by (auto simp: values_sbt_def intro: rev_image_eqI)
    then show "w_assets x = filter (\<lambda>a. a_willId a = w_id x) (values_sbt (assetsStorage s')) \<and>
        w_beneficiaries x =
          filter (\<lambda>b. b_willId b = w_id x) (values_sbt (beneficiariesStorage s'))"
      using c wv by (auto simp: dual_write_consistent_def others w'_def)
  qed
  ultimately show ?thesis using s'_eq by (simp add: s'_def w'_def wid_def)
qed

lemma invariants_step:
  assumes d: "keys_distinct s" and r: "references_ok s" and c: "dual_write_consistent s"
    and f: "fresh_id uuid s"
  shows "references_ok (snd (canister m uuid now s)) \<and>
         dual_write_consistent (snd (canister m uuid now s))"
proof (cases m)
  case (CreateUser p)
  with r c show ?thesis
    by (simp add: map_Result_snd createUser_def Let_def
        frame_invariants [where s = s and s' = "s\<lparr>usersStorage := u\<rparr>" for u])
next
  case (CreateExecutor p)
  with r c show ?thesis
    by (simp add: map_Result_snd createExecutor_def Let_def
        frame_invariants [where s = s and s' = "s\<lparr>executorsStorage := u\<rparr>" for u])
next
  case (CreateWill p)
  with createWill_invariants [OF r c f] show ?thesis
    by (simp add: map_Result_snd)
next
  case (AddAsset p)
  with addAsset_invariants [OF d r c f] show ?thesis
    by (simp add: map_Result_snd)
next
  case (AddBeneficiary p)
  with addBeneficiary_invariants [OF d r c f] show ?thesis
    by (simp add: map_Result_snd)
next
  case (AssignExecutor p)
  with assignExecutor_invariants [OF d r c] show ?thesis
    by (simp add: map_Result_snd)
qed (use r c in \<open>simp_all add: map_Result_snd getUser_def getAllUsers_def getExecutor_def
      getAllExecutors_def getWill_def getAllWills_def Let_def split: option.splits\<close>)

lemma invariants_run:
  assumes "keys_distinct s" and "references_ok s" and "dual_write_consistent s"
    and "fresh_run cs s"
  shows "references_ok (run cs s) \<and> dual_write_consistent (run cs s)"
  using assms
proof (induction cs arbitrary: s)
  case Nil
  then show ?case by simp
next
  case (Cons c cs)
  obtain m uuid now where c: "c = (m, uuid, now)" by (cases c)
  let ?s = "snd (canister m uuid now s)"
  from Cons.prems c have f: "fresh_id uuid s" and fr: "fresh_run cs ?s"
    by simp_all
  from Cons.prems(1) have d: "keys_distinct ?s"
    by (rule keys_distinct_step)
  from invariants_step [OF Cons.prems(1-3) f]
  have "references_ok ?s" and "dual_write_consistent ?s"
    by simp_all
  with d fr have "references_ok (run cs ?s) \<and> dual_write_consistent (run cs ?s)"
    by (intro Cons.IH)
  with c show ?case by simp
qed

lemma invariants_init: "references_ok init_state" "dual_write_consistent init_state"
  by (simp_all add: references_ok_def dual_write_consistent_def init_state_def values_sbt_def)

text \<open>
  C1. Let every call draw a fresh identifier, as the identifier generator promises. Then
  in the store that a sequence of calls leaves, the \<open>assets\<close> of every stored will are
  exactly the assets of the assets collection whose \<open>willId\<close> is the will's id, in the
  order of insertion, and its \<open>beneficiaries\<close> are exactly the beneficiaries of the
  beneficiaries collection whose \<open>willId\<close> is the will's id; and one more call of any
  method, \<open>addAsset\<close> and \<open>addBeneficiary\<close> among them, keeps it so.
\<close>

theorem dual_write_invariant:
  assumes "fresh_run cs init_state"
  shows "dual_write_consistent (run cs init_state) \<and>
         (\<forall>m uuid now. fresh_id uuid (run cs init_state) \<longrightarrow>
            dual_write_consistent (snd (canister m uuid now (run cs init_state))))"
proof -
  have d: "keys_distinct (run cs init_state)"
    by (rule keys_distinct_run) (rule keys_distinct_init)
  from invariants_run [OF keys_distinct_init invariants_init assms]
  have r: "references_ok (run cs init_state)"
    and c: "dual_write_consistent (run cs init_state)"
    by simp_all
  from invariants_step [OF d r c] c show ?thesis
    by blast
qed

theorem dual_write_invariant_witness:
  "fresh_run
     (example_calls @
      [(AddAsset \<lparr>ap_willId = ''w1'', ap_name = ''House'', ap_value = 500000\<rparr>, ''a1'', 5)])
     init_state \<and>
   dual_write_consistent
     (run (example_calls @
        [(AddAsset \<lparr>ap_willId = ''w1'', ap_name = ''House'', ap_value = 500000\<rparr>, ''a1'', 5)])
        init_state) \<and>
   fresh_id ''b1''
     (run (example_calls @
        [(AddAsset \<lparr>ap_willId = ''w1'', ap_name = ''House'', ap_value = 500000\<rparr>, ''a1'', 5)])
        init_state) \<and>
   dual_write_consistent
     (snd (canister (AddBeneficiary \<lparr>bp_willId = ''w1'', bp_name = ''Carol'', bp_share = 100\<rparr>)
        ''b1'' 6
        (run (example_calls @
          [(AddAsset \<lparr>ap_willId = ''w1'', ap_name = ''House'', ap_value = 500000\<rparr>, ''a1'', 5)])
          init_state)))"
proof -
  let ?cs = "example_calls @
      [(AddAsset \<lparr>ap_willId = ''w1'', ap_name = ''House'', ap_value = 500000\<rparr>, ''a1'', 5)]"
  have f: "fresh_run ?cs init_state"
    by (simp add: example_calls_def init_state_def fresh_id_def keys_sbt_def createUser_def
        createExecutor_def createWill_def get_sbt_def Let_def)
  have g: "fresh_id ''b1'' (run ?cs init_state)"
    by (simp add: example_calls_def init_state_def fresh_id_def keys_sbt_def createUser_def
        createExecutor_def createWill_def addAsset_def get_sbt_def Let_def)
  from f g dual_write_invariant [OF f] show ?thesis
    by blast
qed

end
